theory Spec2Isabelle
  imports Main "HOL-Library.List_Lexorder"
begin

section \<open>Text\<close>

text \<open>
  Python's \<^verbatim>\<open>str\<close> is a sequence of Unicode code points, so a text is a list of code
  points here. The month names of the source need two letters outside ASCII
  (U+015B and U+017A), which is why the byte strings of HOL are not used directly;
  \<open>u\<close> turns an ASCII literal into a text.

  The character classes of \<^verbatim>\<open>re\<close> and \<^verbatim>\<open>str\<close> come from the Unicode tables of the
  interpreter. The whitespace class is given in full. The decimal digits (\<^verbatim>\<open>\d\<close>) and
  the word characters (\<^verbatim>\<open>\w\<close>, behind \<^verbatim>\<open>\b\<close>) are given for the Latin blocks up to
  U+024F, the alphabet of the input files: there the decimal digits are 0 to 9.
\<close>

type_synonym ustr = "nat list"

definition u :: "string \<Rightarrow> ustr" where
  "u s = map of_char s"

definition is_space :: "nat \<Rightarrow> bool" where
  "is_space c \<longleftrightarrow>
     (9 \<le> c \<and> c \<le> 13) \<or> (28 \<le> c \<and> c \<le> 32) \<or> c = 133 \<or> c = 160 \<or> c = 5760 \<or>
     (8192 \<le> c \<and> c \<le> 8202) \<or> c = 8232 \<or> c = 8233 \<or> c = 8239 \<or> c = 8287 \<or> c = 12288"

definition is_digit :: "nat \<Rightarrow> bool" where
  "is_digit c \<longleftrightarrow> 48 \<le> c \<and> c \<le> 57"

definition is_word :: "nat \<Rightarrow> bool" where
  "is_word c \<longleftrightarrow>
     is_digit c \<or> (65 \<le> c \<and> c \<le> 90) \<or> c = 95 \<or> (97 \<le> c \<and> c \<le> 122) \<or>
     c = 170 \<or> c = 178 \<or> c = 179 \<or> c = 181 \<or> c = 185 \<or> c = 186 \<or>
     c = 188 \<or> c = 189 \<or> c = 190 \<or>
     (192 \<le> c \<and> c \<le> 591 \<and> c \<noteq> 215 \<and> c \<noteq> 247) \<or> c = 8490"

text \<open>\<^verbatim>\<open>str.isdigit\<close> of one character: the decimal digits and the superscript digits.\<close>

definition py_isdigit_char :: "nat \<Rightarrow> bool" where
  "py_isdigit_char c \<longleftrightarrow> is_digit c \<or> c = 178 \<or> c = 179 \<or> c = 185"

definition py_isdigit :: "ustr \<Rightarrow> bool" where
  "py_isdigit s \<longleftrightarrow> s \<noteq> [] \<and> list_all py_isdigit_char s"

text \<open>\<^verbatim>\<open>s.strip()\<close>: whitespace removed at both ends.\<close>

definition py_strip :: "ustr \<Rightarrow> ustr" where
  "py_strip s = rev (dropWhile is_space (rev (dropWhile is_space s)))"

text \<open>\<^verbatim>\<open>re.sub(r"\s+", " ", s)\<close>: every maximal run of whitespace becomes one space.\<close>

fun collapse_from :: "bool \<Rightarrow> ustr \<Rightarrow> ustr" where
  "collapse_from in_run [] = []"
| "collapse_from in_run (c # cs) =
     (if is_space c then (if in_run then collapse_from True cs else 32 # collapse_from True cs)
      else c # collapse_from False cs)"

definition collapse_ws :: "ustr \<Rightarrow> ustr" where
  "collapse_ws s = collapse_from False s"

text \<open>\<^verbatim>\<open>int(s)\<close> on a run of decimal digits, and \<^verbatim>\<open>str(n)\<close> of an integer.\<close>

definition digit_val :: "nat \<Rightarrow> nat" where
  "digit_val c = c - 48"

definition py_int :: "ustr \<Rightarrow> int" where
  "py_int s = int (foldl (\<lambda>a c. 10 * a + digit_val c) 0 s)"

fun str_nat :: "nat \<Rightarrow> ustr" where
  "str_nat n = (if n < 10 then [48 + n] else str_nat (n div 10) @ [48 + n mod 10])"

definition py_str_int :: "int \<Rightarrow> ustr" where
  "py_str_int i = (if i < 0 then 45 # str_nat (nat (- i)) else str_nat (nat i))"

text \<open>\<^verbatim>\<open>s.zfill(2)\<close> on a run of one or two digits.\<close>

definition zfill2 :: "ustr \<Rightarrow> ustr" where
  "zfill2 d = replicate (2 - length d) 48 @ d"

section \<open>Case-insensitive literals\<close>

text \<open>
  Under \<^verbatim>\<open>re.IGNORECASE\<close> a lower-case pattern letter \<open>p\<close> accepts every character
  whose simple lower-case form is \<open>p\<close>, and for the letters i and s also the dotless i
  (U+0131) and the long s (U+017F), which share their upper-case form. The characters
  with an ASCII lower-case form are the ASCII capitals, the dotted capital I (U+0130)
  and the Kelvin sign (U+212A).
\<close>

definition sre_lower :: "nat \<Rightarrow> nat" where
  "sre_lower c =
     (if 65 \<le> c \<and> c \<le> 90 then c + 32
      else if c = 304 then 105
      else if c = 8490 then 107
      else if c = 346 then 347
      else if c = 377 then 378
      else c)"

definition ci_eq :: "nat \<Rightarrow> nat \<Rightarrow> bool" where
  "ci_eq p c \<longleftrightarrow>
     sre_lower c = p \<or> (p = 105 \<and> sre_lower c = 305) \<or> (p = 115 \<and> sre_lower c = 383)"

text \<open>
  \<^verbatim>\<open>str.lower()\<close>, on the characters a month name of the pattern can match: the dotted
  capital I becomes i followed by a combining dot, the dotless i and the long s stay.
\<close>

definition py_lower_char :: "nat \<Rightarrow> ustr" where
  "py_lower_char c = (if c = 304 then [105, 775] else [sre_lower c])"

definition py_lower :: "ustr \<Rightarrow> ustr" where
  "py_lower s = concat (map py_lower_char s)"

text \<open>A literal matched at the start of a text: the matched characters and the rest.\<close>

fun lit_ci :: "ustr \<Rightarrow> ustr \<Rightarrow> (ustr \<times> ustr) option" where
  "lit_ci [] t = Some ([], t)"
| "lit_ci (p # ps) [] = None"
| "lit_ci (p # ps) (c # t) =
     (if ci_eq p c
      then (case lit_ci ps t of None \<Rightarrow> None | Some (g, r) \<Rightarrow> Some (c # g, r))
      else None)"

section \<open>Polish long-form dates\<close>

text \<open>The keys of \<^verbatim>\<open>MONTHS_MAP\<close>, in the order of the alternation of the pattern.\<close>

definition MONTHS_MAP :: "(ustr \<times> ustr) list" where
  "MONTHS_MAP =
     [(u ''stycznia'', u ''01''), (u ''lutego'', u ''02''), (u ''marca'', u ''03''),
      (u ''kwietnia'', u ''04''), (u ''maja'', u ''05''), (u ''czerwca'', u ''06''),
      (u ''lipca'', u ''07''), (u ''sierpnia'', u ''08''),
      (u ''wrze'' @ [347] @ u ''nia'', u ''09''), (u ''wrzesnia'', u ''09''),
      (u ''pa'' @ [378] @ u ''dziernika'', u ''10''), (u ''pazdziernika'', u ''10''),
      (u ''listopada'', u ''11''), (u ''grudnia'', u ''12'')]"

definition month_names :: "ustr list" where
  "month_names = map fst MONTHS_MAP"

text \<open>
  The pattern of \<^verbatim>\<open>normalize_polish_dates\<close>, piece by piece:
  \<^verbatim>\<open>\b(\d{1,2})\s+(stycznia|...|grudnia)\s+(\d{4})\s*r?\.?,?\<close>.
  Each piece is greedy and what follows it starts with a character the piece cannot
  take (a digit is no whitespace, a letter is neither), so giving characters back
  never helps and the longest choice is the only one that can succeed. No month name
  is a prefix of another, so at most one alternative matches.
\<close>

text \<open>\<^verbatim>\<open>(\d{1,2})\<close>\<close>

fun digits12 :: "ustr \<Rightarrow> (ustr \<times> ustr) option" where
  "digits12 [] = None"
| "digits12 [c] = (if is_digit c then Some ([c], []) else None)"
| "digits12 (c # c' # t) =
     (if is_digit c then (if is_digit c' then Some ([c, c'], t) else Some ([c], c' # t))
      else None)"

text \<open>\<^verbatim>\<open>\s+\<close>: the whitespace taken and the rest.\<close>

definition ws1 :: "ustr \<Rightarrow> (ustr \<times> ustr) option" where
  "ws1 t = (case t of [] \<Rightarrow> None
            | c # cs \<Rightarrow> if is_space c then Some (takeWhile is_space t, dropWhile is_space t)
                       else None)"

text \<open>\<^verbatim>\<open>(stycznia|...|grudnia)\<close>\<close>

fun month_alt :: "ustr list \<Rightarrow> ustr \<Rightarrow> (ustr \<times> ustr) option" where
  "month_alt [] t = None"
| "month_alt (name # names) t =
     (case lit_ci name t of Some gr \<Rightarrow> Some gr | None \<Rightarrow> month_alt names t)"

text \<open>\<^verbatim>\<open>(\d{4})\<close>\<close>

fun digits4 :: "ustr \<Rightarrow> (ustr \<times> ustr) option" where
  "digits4 (a # b # c # d # t) =
     (if is_digit a \<and> is_digit b \<and> is_digit c \<and> is_digit d then Some ([a, b, c, d], t)
      else None)"
| "digits4 t = None"

text \<open>\<^verbatim>\<open>\s*r?\.?,?\<close>: the optional tail taken and the rest.\<close>

definition opt_ci :: "nat \<Rightarrow> ustr \<Rightarrow> ustr \<times> ustr" where
  "opt_ci p t = (case t of [] \<Rightarrow> ([], []) | c # cs \<Rightarrow> if ci_eq p c then ([c], cs) else ([], t))"

definition trailer :: "ustr \<Rightarrow> ustr \<times> ustr" where
  "trailer t =
     (let (r, t1) = opt_ci 114 (dropWhile is_space t);
          (dot, t2) = opt_ci 46 t1;
          (comma, t3) = opt_ci 44 t2
      in (takeWhile is_space t @ r @ dot @ comma, t3))"

text \<open>
  The pattern without its \<^verbatim>\<open>\b\<close>: the three groups, the whole matched text
  (\<^verbatim>\<open>m.group(0)\<close>) and the text after the match.
\<close>

definition match_here :: "ustr \<Rightarrow> (ustr \<times> ustr \<times> ustr \<times> ustr \<times> ustr) option" where
  "match_here t =
     (case digits12 t of None \<Rightarrow> None
      | Some (d, t1) \<Rightarrow>
     (case ws1 t1 of None \<Rightarrow> None
      | Some (w1, t2) \<Rightarrow>
     (case month_alt month_names t2 of None \<Rightarrow> None
      | Some (g, t3) \<Rightarrow>
     (case ws1 t3 of None \<Rightarrow> None
      | Some (w2, t4) \<Rightarrow>
     (case digits4 t4 of None \<Rightarrow> None
      | Some (y, t5) \<Rightarrow>
          (case trailer t5 of (tr, rest) \<Rightarrow>
             Some (d, g, y, d @ w1 @ g @ w2 @ y @ tr, rest)))))))"

text \<open>
  \<^verbatim>\<open>\b\<close> in front of a digit holds when the character before is no word character
  (or there is none). \<open>prev\<close> is the character before the position in the text that
  is searched, also when an earlier match has consumed it.
\<close>

definition wordc :: "nat option \<Rightarrow> bool" where
  "wordc prev = (case prev of None \<Rightarrow> False | Some c \<Rightarrow> is_word c)"

definition match_at ::
  "nat option \<Rightarrow> ustr \<Rightarrow> (ustr \<times> ustr \<times> ustr \<times> ustr \<times> ustr) option" where
  "match_at prev t = (if wordc prev then None else match_here t)"

text \<open>The function \<^verbatim>\<open>repl\<close>; \<open>g0\<close> is \<^verbatim>\<open>m.group(0)\<close>.\<close>

definition repl :: "ustr \<Rightarrow> ustr \<Rightarrow> ustr \<Rightarrow> ustr \<Rightarrow> ustr" where
  "repl g0 d g y =
     (case map_of MONTHS_MAP (py_lower g) of
        Some mm \<Rightarrow> zfill2 d @ [46] @ mm @ [46] @ y
      | None \<Rightarrow> g0)"

text \<open>
  \<^verbatim>\<open>re.sub\<close>: the text is scanned from the left; at a match the replacement is
  emitted and the scan goes on behind the match, where \<^verbatim>\<open>\b\<close> looks back at the last
  character of the match; otherwise one character is copied. A match is never empty,
  so the scan always advances.
\<close>

function sub_dates :: "nat option \<Rightarrow> ustr \<Rightarrow> ustr" where
  "sub_dates prev t =
     (case t of [] \<Rightarrow> []
      | c # cs \<Rightarrow>
     (case match_at prev t of
        None \<Rightarrow> c # sub_dates (Some c) cs
      | Some (d, g, y, g0, rest) \<Rightarrow> repl g0 d g y @ sub_dates (Some (last g0)) rest))"
  by pat_completeness auto

definition normalize_polish_dates :: "ustr \<Rightarrow> ustr" where
  "normalize_polish_dates text = sub_dates None text"

section \<open>The scan terminates\<close>

lemma length_dropWhile_le: "length (dropWhile P xs) \<le> length xs"
  by (induction xs) auto

lemma digits12_length: "digits12 t = Some (d, r) \<Longrightarrow> length r < length t"
  by (induction t rule: digits12.induct) (auto split: if_splits)

lemma ws1_length: "ws1 t = Some (w, r) \<Longrightarrow> length r < length t"
  by (cases t) (auto simp: ws1_def less_Suc_eq_le length_dropWhile_le split: if_splits)

lemma lit_ci_length: "lit_ci ps t = Some (g, r) \<Longrightarrow> length r \<le> length t"
  by (induction ps t arbitrary: g r rule: lit_ci.induct)
     (fastforce split: if_splits option.splits)+

lemma month_alt_length: "month_alt names t = Some (g, r) \<Longrightarrow> length r \<le> length t"
  by (induction names) (auto split: option.splits dest: lit_ci_length)

lemma digits4_length: "digits4 t = Some (y, r) \<Longrightarrow> length r < length t"
  by (induction t rule: digits4.induct) (auto split: if_splits)

lemma opt_ci_length: "opt_ci p t = (a, r) \<Longrightarrow> length r \<le> length t"
  by (cases t) (auto simp: opt_ci_def split: if_splits)

lemma trailer_length:
  assumes "trailer t = (tr, r)"
  shows "length r \<le> length t"
proof -
  from assms obtain a t1 b t2 c where
    1: "opt_ci 114 (dropWhile is_space t) = (a, t1)" and 2: "opt_ci 46 t1 = (b, t2)" and
    3: "opt_ci 44 t2 = (c, r)"
    by (auto simp: trailer_def split: prod.splits)
  from opt_ci_length [OF 1] opt_ci_length [OF 2] opt_ci_length [OF 3]
       length_dropWhile_le [of is_space t]
  show ?thesis by simp
qed

lemma match_here_length:
  assumes "match_here t = Some (d, g, y, g0, rest)"
  shows "length rest < length t"
proof -
  from assms obtain t1 w1 t2 t3 w2 t4 t5 tr where
    a: "digits12 t = Some (d, t1)" and b: "ws1 t1 = Some (w1, t2)" and
    c: "month_alt month_names t2 = Some (g, t3)" and e: "ws1 t3 = Some (w2, t4)" and
    f: "digits4 t4 = Some (y, t5)" and g: "trailer t5 = (tr, rest)"
    by (auto simp: match_here_def split: option.splits prod.splits)
  from digits12_length [OF a] ws1_length [OF b] month_alt_length [OF c]
       ws1_length [OF e] digits4_length [OF f] trailer_length [OF g]
  show ?thesis by simp
qed

lemma match_at_length:
  "match_at prev t = Some (d, g, y, g0, rest) \<Longrightarrow> length rest < length t"
  by (auto simp: match_at_def split: if_splits dest: match_here_length)

termination sub_dates
  by (relation "measure (\<lambda>(prev, t). length t)") (auto dest: match_at_length)

declare sub_dates.simps [simp del]

section \<open>Period tokens\<close>

text \<open>\<^verbatim>\<open>$\<close> without \<^verbatim>\<open>re.MULTILINE\<close>: the end of the text, or just before a final newline.\<close>

definition eol :: "ustr \<Rightarrow> bool" where
  "eol t \<longleftrightarrow> t = [] \<or> t = [10]"

text \<open>\<^verbatim>\<open>PERIOD_Q_RE = ^\d{4}[-/]?q[1-4]$\<close> with \<^verbatim>\<open>re.IGNORECASE\<close>\<close>

definition q_tail :: "ustr \<Rightarrow> bool" where
  "q_tail t = (case t of q # n # e \<Rightarrow> ci_eq 113 q \<and> 49 \<le> n \<and> n \<le> 52 \<and> eol e | _ \<Rightarrow> False)"

definition PERIOD_Q_RE :: "ustr \<Rightarrow> bool" where
  "PERIOD_Q_RE t =
     (case digits4 t of None \<Rightarrow> False
      | Some (y, r) \<Rightarrow>
          (case r of [] \<Rightarrow> False | c # r' \<Rightarrow> (c = 45 \<or> c = 47) \<and> q_tail r') \<or> q_tail r)"

text \<open>\<^verbatim>\<open>PERIOD_ISO_RE = ^\d{4}([-/])\d{2}(\1\d{2})?$\<close>\<close>

definition PERIOD_ISO_RE :: "ustr \<Rightarrow> bool" where
  "PERIOD_ISO_RE t =
     (case digits4 t of
        Some (y, sep # a # b # r) \<Rightarrow>
          (sep = 45 \<or> sep = 47) \<and> is_digit a \<and> is_digit b \<and>
          ((case r of s2 # c # d # e \<Rightarrow> s2 = sep \<and> is_digit c \<and> is_digit d \<and> eol e
            | _ \<Rightarrow> False) \<or> eol r)
      | _ \<Rightarrow> False)"

text \<open>\<^verbatim>\<open>PERIOD_PL_RE = ^\d{2}\.\d{2}\.\d{4}$\<close>\<close>

definition PERIOD_PL_RE :: "ustr \<Rightarrow> bool" where
  "PERIOD_PL_RE t =
     (case t of
        a # b # p # c # d # q # r \<Rightarrow>
          is_digit a \<and> is_digit b \<and> p = 46 \<and> is_digit c \<and> is_digit d \<and> q = 46 \<and>
          (case digits4 r of None \<Rightarrow> False | Some (y, e) \<Rightarrow> eol e)
      | _ \<Rightarrow> False)"

text \<open>\<^verbatim>\<open>YEAR_ONLY_RE = ^\d{4}$\<close>\<close>

definition YEAR_ONLY_RE :: "ustr \<Rightarrow> bool" where
  "YEAR_ONLY_RE t = (case digits4 t of None \<Rightarrow> False | Some (y, e) \<Rightarrow> eol e)"

definition is_period_token :: "ustr \<Rightarrow> bool" where
  "is_period_token s =
     (let t = py_strip s
      in PERIOD_Q_RE t \<or> PERIOD_ISO_RE t \<or> PERIOD_PL_RE (normalize_polish_dates t) \<or>
         YEAR_ONLY_RE t)"

section \<open>Year extraction\<close>

text \<open>
  \<^verbatim>\<open>\b(\d{2})\.(\d{2})\.(\d{4})\b\<close> at the start of a text, the leading \<^verbatim>\<open>\b\<close> apart:
  the year group. The closing \<^verbatim>\<open>\b\<close> stands behind a digit, so it holds when no
  word character follows.
\<close>

definition ddmmyyyy_here :: "ustr \<Rightarrow> ustr option" where
  "ddmmyyyy_here t =
     (case t of
        a # b # p # c # d # q # r \<Rightarrow>
          (if is_digit a \<and> is_digit b \<and> p = 46 \<and> is_digit c \<and> is_digit d \<and> q = 46
           then (case digits4 r of
                   None \<Rightarrow> None
                 | Some (y, e) \<Rightarrow>
                     (case e of [] \<Rightarrow> Some y | x # xs \<Rightarrow> if is_word x then None else Some y))
           else None)
      | _ \<Rightarrow> None)"

text \<open>\<^verbatim>\<open>re.search\<close> of that pattern: the leftmost position where it matches.\<close>

fun search_ddmmyyyy :: "nat option \<Rightarrow> ustr \<Rightarrow> ustr option" where
  "search_ddmmyyyy prev [] = None"
| "search_ddmmyyyy prev (c # cs) =
     (case (if wordc prev then None else ddmmyyyy_here (c # cs)) of
        Some y \<Rightarrow> Some y
      | None \<Rightarrow> search_ddmmyyyy (Some c) cs)"

text \<open>\<^verbatim>\<open>re.search(r"(\d{4})", t)\<close>\<close>

fun search_digits4 :: "ustr \<Rightarrow> ustr option" where
  "search_digits4 [] = None"
| "search_digits4 (c # cs) =
     (case digits4 (c # cs) of Some (y, r) \<Rightarrow> Some y | None \<Rightarrow> search_digits4 cs)"

definition period_year :: "ustr \<Rightarrow> int option" where
  "period_year s =
     (if py_strip s = [] then None
      else let t = py_strip s in
        (case search_ddmmyyyy None t of
           Some y \<Rightarrow> Some (py_int y)
         | None \<Rightarrow>
        (case digits4 t of
           Some (y, r) \<Rightarrow> Some (py_int y)
         | None \<Rightarrow>
        (case search_digits4 t of
           Some y \<Rightarrow> Some (py_int y)
         | None \<Rightarrow> None))))"

section \<open>Cell values\<close>

text \<open>
  A cell of a table as \<^verbatim>\<open>clean_value\<close> can meet it: missing (\<^verbatim>\<open>None\<close>, NaN,
  \<^verbatim>\<open>pd.NA\<close>: whatever \<^verbatim>\<open>pd.isna\<close> accepts), a float, an integer or a text. Of a
  float the function asks only whether it is integer-valued, then takes \<^verbatim>\<open>int(v)\<close>,
  else its \<^verbatim>\<open>str\<close>; so a float is either the integer it equals or, when
  \<^verbatim>\<open>is_integer\<close> is false, the text \<^verbatim>\<open>str\<close> gives for it.
\<close>

datatype pyfloat = FInt int | FOther ustr

datatype pyval = NA | PFloat pyfloat | PInt int | PStr ustr

text \<open>\<^verbatim>\<open>str(v)\<close> where \<^verbatim>\<open>clean_value\<close> calls it: \<open>v\<close> is not missing.\<close>

fun py_str :: "pyval \<Rightarrow> ustr" where
  "py_str NA = u ''nan''"
| "py_str (PFloat (FInt n)) = py_str_int n @ u ''.0''"
| "py_str (PFloat (FOther r)) = r"
| "py_str (PInt n) = py_str_int n"
| "py_str (PStr s) = s"

text \<open>\<^verbatim>\<open>s.endswith(".0")\<close> and \<^verbatim>\<open>s.replace(".0", "")\<close>\<close>

definition ends_dot0 :: "ustr \<Rightarrow> bool" where
  "ends_dot0 s \<longleftrightarrow> 2 \<le> length s \<and> drop (length s - 2) s = [46, 48]"

fun remove_dot0 :: "ustr \<Rightarrow> ustr" where
  "remove_dot0 (a # b # t) = (if a = 46 \<and> b = 48 then remove_dot0 t else a # remove_dot0 (b # t))"
| "remove_dot0 t = t"

definition clean_value :: "pyval \<Rightarrow> ustr" where
  "clean_value v =
     (case v of
        NA \<Rightarrow> []
      | PFloat (FInt n) \<Rightarrow> py_str_int n
      | _ \<Rightarrow>
          (let s = py_str v in
           if ends_dot0 s \<and> py_isdigit (remove_dot0 s) then remove_dot0 s else s))"

section \<open>One file: cleaning, period policy, year filter\<close>

text \<open>
  The long table of \<^verbatim>\<open>process_file\<close> when step 7 begins: one row per value cell, its
  five fields still as pandas holds them, and the data set name. A row of the result
  has texts in all six fields.
\<close>

record long_row =
  l_dataset :: ustr
  l_measure :: pyval
  l_value :: pyval
  l_region :: pyval
  l_period :: pyval
  l_typ :: pyval

record row =
  dataset :: ustr
  measure :: ustr
  value' :: ustr
  region :: ustr
  period :: ustr
  typ' :: ustr

text \<open>
  Step 7, for one cell: \<^verbatim>\<open>clean_value\<close>, \<^verbatim>\<open>normalize_polish_dates\<close>, whitespace
  runs collapsed, ends trimmed.
\<close>

definition clean_cell :: "pyval \<Rightarrow> ustr" where
  "clean_cell v = py_strip (collapse_ws (normalize_polish_dates (clean_value v)))"

definition clean_row :: "long_row \<Rightarrow> row" where
  "clean_row r =
     \<lparr> dataset = l_dataset r, measure = clean_cell (l_measure r), value' = clean_cell (l_value r),
       region = clean_cell (l_region r), period = clean_cell (l_period r),
       typ' = clean_cell (l_typ r) \<rparr>"

text \<open>Step 8, first part: a table without any period token gets the period "2025".\<close>

definition force_default_period :: "bool \<Rightarrow> row list \<Rightarrow> row list" where
  "force_default_period has_any_period_in_table long =
     (if \<not> has_any_period_in_table then map (\<lambda>r. r\<lparr>period := u ''2025''\<rparr>) long else long)"

text \<open>
  \<^verbatim>\<open>Series.mode()\<close>: the values that occur most often, in ascending order.
\<close>

definition mode_sorted :: "int list \<Rightarrow> int list" where
  "mode_sorted xs =
     (let best = fold max (map (count_list xs) xs) 0
      in sort (remdups (filter (\<lambda>x. count_list xs x = best) xs)))"

text \<open>\<^verbatim>\<open>yrs_all[yrs_all.isin([2024, 2025])]\<close>\<close>

definition years_in_range :: "row list \<Rightarrow> int list" where
  "years_in_range long =
     concat (map (\<lambda>r. case period_year (period r) of
                         None \<Rightarrow> []
                       | Some y \<Rightarrow> if y = 2024 \<or> y = 2025 then [y] else []) long)"

definition default_year :: "row list \<Rightarrow> int" where
  "default_year long =
     (let dominant = mode_sorted (years_in_range long)
      in if dominant \<noteq> [] then hd dominant else 2025)"

definition fill_default_year :: "row list \<Rightarrow> row list" where
  "fill_default_year long =
     map (\<lambda>r. if period r = [] then r\<lparr>period := py_str_int (default_year long)\<rparr> else r) long"

text \<open>Step 9: only the rows of 2024 and 2025 are kept.\<close>

definition year_filter :: "row list \<Rightarrow> row list" where
  "year_filter long =
     filter (\<lambda>r. period_year (period r) = Some 2024 \<or> period_year (period r) = Some 2025) long"

text \<open>
  \<^verbatim>\<open>process_file\<close>. Reading the file, choosing the special columns, \<^verbatim>\<open>melt\<close> and the
  adoption of periods from headers and identifier cells (steps 1 to 6) are pandas
  calls on the file's content; they are the parameter \<open>front\<close>, which gives for a path
  either the exception raised there or the flag \<^verbatim>\<open>has_any_period_in_table\<close> with the
  long table. Steps 7 to 9 follow.
\<close>

datatype exn = Exception ustr

definition process_file ::
  "(ustr \<Rightarrow> exn + bool \<times> long_row list) \<Rightarrow> ustr \<Rightarrow> exn + row list" where
  "process_file front path =
     (case front path of
        Inl e \<Rightarrow> Inl e
      | Inr (has_any_period_in_table, long) \<Rightarrow>
          Inr (year_filter
                 (fill_default_year
                    (force_default_period has_any_period_in_table (map clean_row long)))))"

section \<open>Identifier and value columns\<close>

text \<open>
  A special column is \<^verbatim>\<open>None\<close> or a column name; \<^verbatim>\<open>if region_col:\<close> is false
  for \<^verbatim>\<open>None\<close> and for the empty name.
\<close>

definition truthy :: "ustr option \<Rightarrow> bool" where
  "truthy c = (case c of None \<Rightarrow> False | Some n \<Rightarrow> n \<noteq> [])"




section \<open>The run over all files\<close>

text \<open>
  The main loop goes through the sorted paths. \<open>pf\<close> is \<^verbatim>\<open>process_file\<close>: for
  each path the exception it raises or the table it returns. \<^verbatim>\<open>except Exception\<close>
  catches every exception a computation raises; interrupts of the interpreter
  (\<^verbatim>\<open>KeyboardInterrupt\<close>, \<^verbatim>\<open>SystemExit\<close>) are not part of the model.
\<close>

datatype message =
    Ok ustr nat
  | Failed ustr exn
  | Warn ustr nat
  | Saved nat
  | NoInput

record run_state =
  parts :: "row list list"
  console :: "message list"

definition loop_step :: "(ustr \<Rightarrow> exn + row list) \<Rightarrow> run_state \<Rightarrow> ustr \<Rightarrow> run_state" where
  "loop_step pf st path =
     (case pf path of
        Inr part \<Rightarrow> st\<lparr>parts := parts st @ [part], console := console st @ [Ok path (length part)]\<rparr>
      | Inl e \<Rightarrow> st\<lparr>console := console st @ [Failed path e]\<rparr>)"

definition main_loop :: "(ustr \<Rightarrow> exn + row list) \<Rightarrow> ustr list \<Rightarrow> run_state" where
  "main_loop pf paths = foldl (loop_step pf) \<lparr>parts = [], console = []\<rparr> paths"

text \<open>
  Step 10: \<^verbatim>\<open>fillna("").astype(str).str.strip()\<close> on a column of texts, then the
  default where the text is empty. The default of \<open>typ\<close> and \<open>region\<close> is the Polish
  word for "total", with o-acute (U+00F3) and l-stroke (U+0142).
\<close>

definition ogolem :: ustr where
  "ogolem = u ''og'' @ [243, 322] @ u ''em''"

definition fill_empty :: "ustr \<Rightarrow> ustr \<Rightarrow> ustr" where
  "fill_empty dflt s = (if py_strip s = [] then dflt else py_strip s)"

definition fill_master :: "row \<Rightarrow> row" where
  "fill_master r =
     r\<lparr>typ' := fill_empty ogolem (typ' r), region := fill_empty ogolem (region r),
       period := fill_empty (u ''2025'') (period r)\<rparr>"

definition sanity_check :: "row list \<Rightarrow> message list" where
  "sanity_check master =
     concat (map (\<lambda>(c, f). let n_empty = length (filter (\<lambda>r. py_strip (f r) = []) master)
                            in if n_empty \<noteq> 0 then [Warn c n_empty] else [])
               [(u ''region'', region), (u ''typ'', typ'), (u ''period'', period)])"

text \<open>
  The outcome of a run: the rows of the CSV file when one is written, and the lines
  printed.
\<close>

record outcome =
  written :: "row list option"
  printed :: "message list"

definition main :: "(ustr \<Rightarrow> exn + row list) \<Rightarrow> ustr list \<Rightarrow> outcome" where
  "main pf paths =
     (let st = main_loop pf (sort paths)
      in if parts st \<noteq> []
         then (let master = map fill_master (concat (parts st))
               in \<lparr>written = Some master,
                   printed = console st @ sanity_check master @ [Saved (length master)]\<rparr>)
         else \<lparr>written = None, printed = console st @ [NoInput]\<rparr>)"

section \<open>The specification's reading of the period recognizer\<close>

text \<open>
  The quarter forms as the specification writes them, \<^verbatim>\<open>^\d{4}-Q[1-4]$\<close> and
  \<^verbatim>\<open>^\d{4}Q[1-4]$\<close> in either letter case, on a trimmed text.
\<close>

fun spec_quarter_form :: "ustr \<Rightarrow> bool" where
  "spec_quarter_form [a, b, c, d, h, q, n] \<longleftrightarrow>
     is_digit a \<and> is_digit b \<and> is_digit c \<and> is_digit d \<and> h = 45 \<and>
     (q = 81 \<or> q = 113) \<and> 49 \<le> n \<and> n \<le> 52"
| "spec_quarter_form [a, b, c, d, q, n] \<longleftrightarrow>
     is_digit a \<and> is_digit b \<and> is_digit c \<and> is_digit d \<and>
     (q = 81 \<or> q = 113) \<and> 49 \<le> n \<and> n \<le> 52"
| "spec_quarter_form t \<longleftrightarrow> False"

text \<open>
  The year extractor as the specification describes it, by positions in the trimmed
  text: the leftmost DD.MM.YYYY substring, else four digits at the start, else the
  leftmost run of four digits. With \<open>bounded\<close> the DD.MM.YYYY substring must begin
  and end at a word boundary; without, any such substring counts, which is the
  specification's wording.
\<close>

definition run4_at :: "ustr \<Rightarrow> nat \<Rightarrow> bool" where
  "run4_at t i \<longleftrightarrow> i + 4 \<le> length t \<and> list_all is_digit (take 4 (drop i t))"

definition has_run4 :: "ustr \<Rightarrow> bool" where
  "has_run4 s \<longleftrightarrow>
     (\<exists>i \<in> set [0..<length s]. i + 4 \<le> length s \<and> list_all is_digit (take 4 (drop i s)))"

definition ddmmyyyy_at :: "bool \<Rightarrow> ustr \<Rightarrow> nat \<Rightarrow> bool" where
  "ddmmyyyy_at bounded t i \<longleftrightarrow>
     i + 10 \<le> length t \<and>
     is_digit (t ! i) \<and> is_digit (t ! (i + 1)) \<and> t ! (i + 2) = 46 \<and>
     is_digit (t ! (i + 3)) \<and> is_digit (t ! (i + 4)) \<and> t ! (i + 5) = 46 \<and>
     run4_at t (i + 6) \<and>
     (if bounded
      then (i = 0 \<or> \<not> is_word (t ! (i - 1))) \<and> (i + 10 = length t \<or> \<not> is_word (t ! (i + 10)))
      else True)"

definition spec_extractYear :: "bool \<Rightarrow> ustr \<Rightarrow> int option" where
  "spec_extractYear bounded s =
     (let t = py_strip s in
      case find (ddmmyyyy_at bounded t) [0..<length t] of
        Some i \<Rightarrow> Some (py_int (take 4 (drop (i + 6) t)))
      | None \<Rightarrow>
          if run4_at t 0 then Some (py_int (take 4 t))
          else (case find (run4_at t) [0..<length t] of
                  Some i \<Rightarrow> Some (py_int (take 4 (drop i t)))
                | None \<Rightarrow> None))"

text \<open>The condition under which \<open>search_ddmmyyyy\<close> stops at position \<open>i\<close>.\<close>

definition dd_at :: "nat option \<Rightarrow> ustr \<Rightarrow> nat \<Rightarrow> bool" where
  "dd_at p t i \<longleftrightarrow>
     \<not> wordc (if i = 0 then p else Some (t ! (i - 1))) \<and> ddmmyyyy_here (drop i t) \<noteq> None"

section \<open>Notions used to state the claims on the run\<close>

text \<open>The tables of the files that \<open>pf\<close> processes without an exception, in order.\<close>

definition successes :: "(ustr \<Rightarrow> exn + row list) \<Rightarrow> ustr list \<Rightarrow> row list list" where
  "successes pf paths = concat (map (\<lambda>p. case pf p of Inl e \<Rightarrow> [] | Inr part \<Rightarrow> [part]) paths)"

text \<open>A file whose only row is of the year 2019: it is read and reshaped, no row is kept.\<close>

definition old_year_front :: "ustr \<Rightarrow> exn + bool \<times> long_row list" where
  "old_year_front path =
     Inr (True, [\<lparr>l_dataset = u ''a'', l_measure = PStr (u ''liczba''), l_value = PStr (u ''10''),
                  l_region = PStr (u ''Polska''), l_period = PStr (u ''2019''), l_typ = NA\<rparr>])"

text \<open>A file that cannot be processed, next to one with a row of 2025.\<close>

definition one_bad_pf :: "ustr \<Rightarrow> exn + row list" where
  "one_bad_pf path =
     (if path = u ''b.csv'' then Inl (Exception (u ''bad''))
      else Inr [\<lparr>dataset = path, measure = u ''liczba'', value' = u ''10'', region = u ''Polska'',
                 period = u ''2025'', typ' = []\<rparr>])"


text \<open>A file without any period token and with one row.\<close>

definition no_period_front :: "ustr \<Rightarrow> exn + bool \<times> long_row list" where
  "no_period_front path =
     Inr (False, [\<lparr>l_dataset = u ''a'', l_measure = PStr (u ''liczba''), l_value = PStr (u ''10.0''),
                   l_region = PStr (u ''Polska''), l_period = NA, l_typ = NA\<rparr>])"

text \<open>A table after step 7 with the periods given.\<close>

definition rows_with_periods :: "ustr list \<Rightarrow> row list" where
  "rows_with_periods ps =
     map (\<lambda>p. \<lparr>dataset = u ''a'', measure = u ''liczba'', value' = u ''10'', region = u ''Polska'',
                period = p, typ' = []\<rparr>) ps"

section \<open>Lemmas on the period recognizer\<close>

lemma digit_not_space: "is_digit c \<Longrightarrow> \<not> is_space c"
  by (auto simp: is_digit_def is_space_def)

lemma digit_is_word: "is_digit c \<Longrightarrow> is_word c"
  by (simp add: is_word_def)

lemma dropWhile_fix: "xs = [] \<or> \<not> P (hd xs) \<Longrightarrow> dropWhile P xs = xs"
  by (cases xs) auto

lemma py_strip_idem: "py_strip (py_strip s) = py_strip s"
proof -
  define t where "t = dropWhile is_space s"
  define r where "r = dropWhile is_space (rev t)"
  have t: "t = [] \<or> \<not> is_space (hd t)"
    unfolding t_def using hd_dropWhile [of is_space s] by blast
  have r: "r = [] \<or> \<not> is_space (hd r)"
    unfolding r_def using hd_dropWhile [of is_space "rev t"] by blast
  have "rev r = [] \<or> \<not> is_space (hd (rev r))"
  proof (cases "r = []")
    case True then show ?thesis by simp
  next
    case False
    have "\<exists>ys. rev t = ys @ r" unfolding r_def
      by (metis takeWhile_dropWhile_id)
    then obtain ys where "rev t = ys @ r" ..
    then have "t = rev r @ rev ys" by (metis rev_append rev_rev_ident)
    with False have "hd (rev r) = hd t" "t \<noteq> []" by auto
    with t show ?thesis by simp
  qed
  then have a: "dropWhile is_space (rev r) = rev r" by (rule dropWhile_fix)
  have b: "dropWhile is_space r = r" using r by (rule dropWhile_fix)
  show ?thesis
    unfolding py_strip_def t_def [symmetric] r_def [symmetric] by (simp add: a b)
qed

lemma digits4_Some_iff:
  "digits4 t = Some (y, r) \<longleftrightarrow> length y = 4 \<and> list_all is_digit y \<and> t = y @ r"
  apply (induction t rule: digits4.induct)
  apply (auto simp: length_Suc_conv numeral_eq_Suc)
  done

lemma digits4_None_iff:
  "digits4 t = None \<longleftrightarrow> \<not> (4 \<le> length t \<and> list_all is_digit (take 4 t))"
  by (induction t rule: digits4.induct) auto

lemma has_run4_Nil: "\<not> has_run4 []"
  by (simp add: has_run4_def)

lemma has_run4_alt:
  "has_run4 s \<longleftrightarrow> (\<exists>i. i + 4 \<le> length s \<and> list_all is_digit (take 4 (drop i s)))"
  by (auto simp: has_run4_def)

lemma has_run4_Cons: "has_run4 (c # cs) \<longleftrightarrow> digits4 (c # cs) \<noteq> None \<or> has_run4 cs"
proof -
  let ?Q = "\<lambda>t i. i + 4 \<le> length t \<and> list_all is_digit (take 4 (drop i t))"
  have a: "?Q (c # cs) (Suc i) = ?Q cs i" for i by (simp add: add.commute [of 4])
  have b: "?Q (c # cs) 0 \<longleftrightarrow> digits4 (c # cs) \<noteq> None" by (auto simp: digits4_None_iff)
  have "(\<exists>i. ?Q (c # cs) i) \<longleftrightarrow> ?Q (c # cs) 0 \<or> (\<exists>i. ?Q (c # cs) (Suc i))"
    by (metis not0_implies_Suc)
  then show ?thesis by (simp only: has_run4_alt a b)
qed

lemma search_digits4_None: "search_digits4 t = None \<longleftrightarrow> \<not> has_run4 t"
  by (induction t) (auto simp: has_run4_Cons has_run4_Nil split: option.splits)

lemma digits4_eq:
  "digits4 t = (if 4 \<le> length t \<and> list_all is_digit (take 4 t)
                then Some (take 4 t, drop 4 t) else None)"
  by (induction t rule: digits4.induct) auto

lemma digits4_space: "is_space c \<Longrightarrow> digits4 (c # cs) = None"
  by (auto simp: digits4_eq digit_not_space)

lemma search_digits4_dropWhile:
  "search_digits4 (dropWhile is_space s) = search_digits4 s"
  by (induction s) (simp_all add: digits4_space)

lemma digits4_append_spaces:
  assumes "list_all is_space ws"
  shows "map_option fst (digits4 (t @ ws)) = map_option fst (digits4 t)"
proof (cases "4 \<le> length t")
  case True
  then show ?thesis by (simp add: digits4_eq)
next
  case False
  have "\<not> list_all is_digit (take 4 (t @ ws))" if "4 \<le> length (t @ ws)"
  proof -
    from False that have "ws \<noteq> []" by auto
    then obtain a l where ws: "ws = a # l" by (cases ws) auto
    from False obtain k where "4 - length t = Suc k" by (cases "4 - length t") auto
    then have "hd ws \<in> set (take 4 (t @ ws))" by (simp add: ws)
    moreover have "is_space (hd ws)" using assms by (simp add: ws)
    ultimately show ?thesis using digit_not_space by (auto simp: list_all_iff)
  qed
  with False show ?thesis by (auto simp: digits4_eq)
qed

lemma search_digits4_append_spaces:
  "list_all is_space ws \<Longrightarrow> search_digits4 (t @ ws) = search_digits4 t"
proof (induction t)
  case Nil
  then show ?case
    by (induction ws) (simp_all add: digits4_space)
next
  case (Cons c t)
  from digits4_append_spaces [OF Cons.prems, of "c # t"] Cons.IH [OF Cons.prems]
  show ?case by (auto split: option.splits)
qed

lemma search_digits4_strip: "search_digits4 (py_strip s) = search_digits4 s"
proof -
  define t where "t = dropWhile is_space s"
  have "t = rev (dropWhile is_space (rev t)) @ rev (takeWhile is_space (rev t))"
    by (metis rev_append rev_rev_ident takeWhile_dropWhile_id)
  moreover have "list_all is_space (rev (takeWhile is_space (rev t)))"
    by (auto simp: list_all_iff dest: set_takeWhileD)
  ultimately have "search_digits4 t = search_digits4 (rev (dropWhile is_space (rev t)))"
    using search_digits4_append_spaces by metis
  then show ?thesis
    by (simp add: py_strip_def t_def search_digits4_dropWhile)
qed



lemma find_map_list: "find P (map f xs) = map_option f (find (P \<circ> f) xs)"
  by (induction xs) auto

lemma find_upt_Suc:
  "find P [0..<Suc n] = (if P 0 then Some 0 else map_option Suc (find (P \<circ> Suc) [0..<n]))"
proof -
  have "[0..<Suc n] = 0 # map Suc [0..<n]"
    by (simp add: upt_conv_Cons map_Suc_upt del: upt_Suc)
  then show ?thesis by (simp add: find_map_list del: upt_Suc)
qed

lemma run4_at_Suc: "run4_at (c # cs) (Suc i) = run4_at cs i"
  by (simp add: run4_at_def add.commute [of 4])

lemma run4_at_0: "run4_at t 0 \<longleftrightarrow> digits4 t \<noteq> None"
  by (simp add: run4_at_def digits4_eq)

lemma search_digits4_find:
  "search_digits4 t = map_option (\<lambda>i. take 4 (drop i t)) (find (run4_at t) [0..<length t])"
proof (induction t)
  case Nil
  then show ?case by simp
next
  case (Cons c cs)
  have sh: "run4_at (c # cs) \<circ> Suc = run4_at cs" by (rule ext) (simp add: run4_at_Suc)
  show ?case
  proof (cases "digits4 (c # cs)")
    case None
    then have "\<not> run4_at (c # cs) 0" by (simp add: run4_at_0)
    then have "find (run4_at (c # cs)) [0..<length (c # cs)]
               = map_option Suc (find (run4_at cs) [0..<length cs])"
      by (simp add: find_upt_Suc sh del: upt_Suc)
    with None Cons.IH show ?thesis
      by (simp add: option.map_comp comp_def del: upt_Suc)
  next
    case (Some yr)
    then have "run4_at (c # cs) 0" by (simp add: run4_at_0)
    then have "find (run4_at (c # cs)) [0..<length (c # cs)] = Some 0"
      by (simp add: find_upt_Suc del: upt_Suc)
    with Some show ?thesis
      by (auto simp: digits4_eq simp del: upt_Suc split: if_splits)
  qed
qed

lemma dd_at_Suc: "dd_at p (c # cs) (Suc i) = dd_at (Some c) cs i"
  by (cases i) (simp_all add: dd_at_def)

lemma ddmmyyyy_here_Some:
  "ddmmyyyy_here t = Some y \<Longrightarrow> y = take 4 (drop 6 t)"
  by (auto simp: ddmmyyyy_here_def digits4_eq split: list.splits if_splits option.splits)

lemma search_ddmmyyyy_find:
  "search_ddmmyyyy p t = map_option (\<lambda>i. take 4 (drop (i + 6) t)) (find (dd_at p t) [0..<length t])"
proof (induction t arbitrary: p)
  case Nil
  then show ?case by simp
next
  case (Cons c cs)
  have sh: "dd_at p (c # cs) \<circ> Suc = dd_at (Some c) cs" by (rule ext) (simp add: dd_at_Suc)
  show ?case
  proof (cases "dd_at p (c # cs) 0")
    case True
    then obtain y where y: "\<not> wordc p" "ddmmyyyy_here (c # cs) = Some y"
      by (auto simp: dd_at_def)
    from True have "find (dd_at p (c # cs)) [0..<length (c # cs)] = Some 0"
      by (simp add: find_upt_Suc del: upt_Suc)
    with y ddmmyyyy_here_Some [OF y(2)] show ?thesis
      by (simp del: upt_Suc)
  next
    case False
    then have "(if wordc p then None else ddmmyyyy_here (c # cs)) = None"
      by (auto simp: dd_at_def)
    then have "search_ddmmyyyy p (c # cs) = search_ddmmyyyy (Some c) cs" by simp
    moreover from False have "find (dd_at p (c # cs)) [0..<length (c # cs)]
               = map_option Suc (find (dd_at (Some c) cs) [0..<length cs])"
      by (simp add: find_upt_Suc sh del: upt_Suc)
    moreover have "(\<lambda>i. take 4 (drop (i + 6) (c # cs))) \<circ> Suc = (\<lambda>i. take 4 (drop (i + 6) cs))"
      by (rule ext) (simp only: comp_def add_Suc drop_Suc_Cons)
    then have "map_option (\<lambda>i. take 4 (drop (i + 6) (c # cs))) (map_option Suc X)
               = map_option (\<lambda>i. take 4 (drop (i + 6) cs)) X" for X
      by (simp only: option.map_comp)
    ultimately show ?thesis using Cons.IH [of "Some c"] by (simp only:)
  qed
qed

lemma ddmmyyyy_here_iff:
  "ddmmyyyy_here t = None \<longleftrightarrow>
     \<not> (10 \<le> length t \<and> is_digit (t ! 0) \<and> is_digit (t ! 1) \<and> t ! 2 = 46 \<and>
        is_digit (t ! 3) \<and> is_digit (t ! 4) \<and> t ! 5 = 46 \<and>
        list_all is_digit (take 4 (drop 6 t)) \<and> (10 = length t \<or> \<not> is_word (t ! 10)))"
proof (cases "6 \<le> length t")
  case False
  then show ?thesis
    by (auto simp: ddmmyyyy_here_def split: list.splits)
next
  case True
  then obtain a b p c d q r where t: "t = a # b # p # c # d # q # r"
    by (auto simp: numeral_eq_Suc Suc_le_length_iff)
  show ?thesis
  proof (cases "4 \<le> length r")
    case False
    then show ?thesis by (auto simp: t ddmmyyyy_here_def digits4_eq)
  next
    case True
    then obtain e where e: "drop 4 r = e" by simp
    show ?thesis
    proof (cases e)
      case Nil
      with e True have "length r = 4" by simp
      with Nil e show ?thesis
        by (auto simp: t ddmmyyyy_here_def digits4_eq)
    next
      case (Cons x xs)
      with e have "4 < length r" by (cases "4 < length r") auto
      with Cons e have "r ! 4 = x" using hd_drop_conv_nth [of 4 r] by simp
      with Cons e \<open>4 < length r\<close> show ?thesis
        by (auto simp: t ddmmyyyy_here_def digits4_eq)
    qed
  qed
qed

lemma dd_at_None: "dd_at None t i = ddmmyyyy_at True t i"
proof (cases "i + 10 \<le> length t")
  case False
  then have "\<not> 10 \<le> length (drop i t)" by simp
  then have "ddmmyyyy_here (drop i t) = None"
    using ddmmyyyy_here_iff [of "drop i t"] by blast
  with False show ?thesis
    by (simp add: dd_at_def ddmmyyyy_at_def)
next
  case True
  then have nth: "drop i t ! k = t ! (i + k)" if "k \<le> 10" for k
    by simp
  have "drop 6 (drop i t) = drop (i + 6) t" by (simp add: add.commute)
  with True show ?thesis
    unfolding dd_at_def ddmmyyyy_at_def ddmmyyyy_here_iff run4_at_def
    by (cases i) (auto simp: nth wordc_def numeral_2_eq_2)
qed

lemma period_year_spec: "period_year s = spec_extractYear True s"
proof -
  have a: "dd_at None (py_strip s) = ddmmyyyy_at True (py_strip s)"
    by (rule ext) (rule dd_at_None)
  show ?thesis
    unfolding period_year_def spec_extractYear_def Let_def
      search_ddmmyyyy_find search_digits4_find a
    by (auto simp: run4_at_0 digits4_eq run4_at_def split: option.splits)
qed

lemma search_digits4_Cons_mono:
  "search_digits4 cs \<noteq> None \<Longrightarrow> search_digits4 (c # cs) \<noteq> None"
  by (simp split: option.splits)

lemma digits4_search: "digits4 t \<noteq> None \<Longrightarrow> search_digits4 t \<noteq> None"
  by (cases t) (auto split: option.splits)

lemma ddmmyyyy_here_run:
  assumes "ddmmyyyy_here t \<noteq> None"
  shows "search_digits4 t \<noteq> None"
proof -
  from assms obtain a b p c d q r where t: "t = a # b # p # c # d # q # r"
    and r: "digits4 r \<noteq> None"
    by (auto simp: ddmmyyyy_here_def split: list.splits if_splits option.splits)
  from digits4_search [OF r] show ?thesis
    unfolding t by (intro search_digits4_Cons_mono)
qed

lemma search_ddmmyyyy_run:
  "search_ddmmyyyy p t \<noteq> None \<Longrightarrow> search_digits4 t \<noteq> None"
proof (induction t arbitrary: p)
  case Nil
  then show ?case by simp
next
  case (Cons c cs)
  show ?case
  proof (cases "ddmmyyyy_here (c # cs)")
    case None
    with Cons.prems have "search_ddmmyyyy (Some c) cs \<noteq> None"
      by (cases "wordc p") simp_all
    from Cons.IH [OF this] show ?thesis by (rule search_digits4_Cons_mono)
  next
    case (Some y)
    then show ?thesis using ddmmyyyy_here_run [of "c # cs"] by simp
  qed
qed

lemma period_year_None_iff: "period_year s = None \<longleftrightarrow> \<not> has_run4 s"
proof -
  have "period_year s = None \<longleftrightarrow> search_digits4 (py_strip s) = None"
    using search_ddmmyyyy_run [of None "py_strip s"] digits4_search [of "py_strip s"]
    by (auto simp: period_year_def Let_def split: option.splits)
  then show ?thesis
    by (simp add: search_digits4_strip search_digits4_None)
qed

lemma period_year_strip: "period_year (py_strip s) = period_year s"
  by (simp add: period_year_def py_strip_idem)

lemma period_year_Some_nonempty: "period_year s = Some y \<Longrightarrow> py_strip s \<noteq> []"
  by (auto simp: period_year_def split: if_splits)

lemma spec_quarter_PERIOD_Q_RE: "spec_quarter_form t \<Longrightarrow> PERIOD_Q_RE t"
  by (induction t rule: spec_quarter_form.induct)
     (auto simp: PERIOD_Q_RE_def q_tail_def eol_def ci_eq_def sre_lower_def is_digit_def)

section \<open>Lemmas on the run\<close>

lemma parts_foldl:
  "parts (foldl (loop_step pf) st paths) = parts st @ successes pf paths"
  by (induction paths arbitrary: st)
     (auto simp: successes_def loop_step_def split: sum.splits)

lemma parts_main_loop: "parts (main_loop pf paths) = successes pf paths"
  by (simp add: main_loop_def parts_foldl)

lemma console_foldl_mono:
  "set (console st) \<subseteq> set (console (foldl (loop_step pf) st paths))"
  by (induction paths arbitrary: st)
     (fastforce simp: loop_step_def split: sum.splits)+

lemma console_failed:
  "pf p = Inl e \<Longrightarrow> Failed p e \<in> set (console (foldl (loop_step pf) st (ps @ p # qs)))"
proof -
  assume a: "pf p = Inl e"
  have "Failed p e \<in> set (console (loop_step pf (foldl (loop_step pf) st ps) p))"
    by (simp add: loop_step_def a)
  then show ?thesis
    using console_foldl_mono [of "loop_step pf (foldl (loop_step pf) st ps) p" pf qs]
    by auto
qed

lemma successes_empty_iff:
  "successes pf paths = [] \<longleftrightarrow> (\<forall>p \<in> set paths. \<forall>part. pf p \<noteq> Inr part)"
  by (induction paths) (auto simp: successes_def split: sum.splits)

lemma successes_skip:
  "pf p = Inl e \<Longrightarrow> successes pf (ps @ p # qs) = successes pf (ps @ qs)"
  by (simp add: successes_def)

lemma year_filter_iff:
  "r \<in> set (year_filter long) \<longleftrightarrow>
     r \<in> set long \<and> (period_year (period r) = Some 2024 \<or> period_year (period r) = Some 2025)"
  by (auto simp: year_filter_def)

lemma fill_master_period:
  assumes "period_year (period r) = Some y"
  shows "period (fill_master r) \<noteq> [] \<and> period_year (period (fill_master r)) = Some y"
proof -
  from assms have "py_strip (period r) \<noteq> []" by (rule period_year_Some_nonempty)
  then have "period (fill_master r) = py_strip (period r)"
    by (simp add: fill_master_def fill_empty_def)
  with assms \<open>py_strip (period r) \<noteq> []\<close> show ?thesis
    by (simp add: period_year_strip)
qed

lemma successes_mem:
  "part \<in> set (successes pf paths) \<Longrightarrow> \<exists>p \<in> set paths. pf p = Inr part"
  by (auto simp: successes_def split: sum.splits)

lemma process_file_Inr:
  "process_file front p = Inr part \<Longrightarrow> \<exists>long. part = year_filter long"
  by (cases "front p") (auto simp: process_file_def)

lemma successes_process_file:
  "part \<in> set (successes (process_file front) paths) \<Longrightarrow> \<exists>long. part = year_filter long"
  by (blast dest: successes_mem process_file_Inr)

section \<open>Lemmas on the default year and on cleaning\<close>

lemma fold_max_Max: "fold max ys (a::nat) = Max (insert a (set ys))"
  using Max.set_eq_fold [of a ys] by simp

lemma hd_sort_least:
  fixes ws :: "int list"
  assumes "ws \<noteq> []"
  shows "hd (sort ws) \<in> set ws \<and> (\<forall>w \<in> set ws. hd (sort ws) \<le> w)"
proof -
  from assms have ne: "sort ws \<noteq> []" by (metis length_0_conv length_sort)
  then obtain x xs where s: "sort ws = x # xs" by (cases "sort ws") auto
  have "sorted (sort ws)" by simp
  then have "sorted (x # xs)" by (simp only: s)
  moreover have "set (sort ws) = set ws" by simp
  then have "set ws = set (x # xs)" by (simp only: s)
  ultimately show ?thesis by (auto simp: s)
qed

lemma mode_sorted_hd:
  assumes "xs \<noteq> []"
  shows "mode_sorted xs \<noteq> [] \<and> hd (mode_sorted xs) \<in> set xs \<and>
         (\<forall>y \<in> set xs. count_list xs y \<le> count_list xs (hd (mode_sorted xs)) \<and>
            (count_list xs y = count_list xs (hd (mode_sorted xs)) \<longrightarrow> hd (mode_sorted xs) \<le> y))"
proof -
  define best where "best = fold max (map (count_list xs) xs) 0"
  define zs where "zs = remdups (filter (\<lambda>x. count_list xs x = best) xs)"
  have best: "best = Max (insert 0 (count_list xs ` set xs))"
    by (simp add: best_def fold_max_Max)
  have ub: "count_list xs y \<le> best" if "y \<in> set xs" for y
    unfolding best using that by (intro Max_ge) auto
  have "best \<in> insert 0 (count_list xs ` set xs)"
    unfolding best by (rule Max_in) auto
  moreover have "0 < best"
  proof -
    from assms obtain x where x: "x \<in> set xs" by (cases xs) auto
    then have "0 < count_list xs x" using count_list_0_iff [of xs x] by auto
    with ub [OF x] show ?thesis by simp
  qed
  ultimately obtain x where "x \<in> set xs" "count_list xs x = best" by auto
  then have zs: "zs \<noteq> []" "set zs = {x \<in> set xs. count_list xs x = best}"
    by (auto simp: zs_def filter_empty_conv)
  have m: "mode_sorted xs = sort zs"
    by (simp add: mode_sorted_def Let_def best_def zs_def)
  from hd_sort_least [OF zs(1)] have
    h: "hd (sort zs) \<in> set zs" "\<And>w. w \<in> set zs \<Longrightarrow> hd (sort zs) \<le> w" by auto
  from zs(1) have "sort zs \<noteq> []" by (metis length_0_conv length_sort)
  with h zs(2) ub show ?thesis unfolding m by auto
qed

lemma years_in_range_count:
  "y = 2024 \<or> y = 2025 \<Longrightarrow>
   count_list (years_in_range long) y = length (filter (\<lambda>r. period_year (period r) = Some y) long)"
  by (induction long) (auto simp: years_in_range_def split: option.splits)

lemma years_in_range_set: "set (years_in_range long) \<subseteq> {2024, 2025}"
  by (auto simp: years_in_range_def split: option.splits if_splits)



lemma sub_dates_Nil: "sub_dates p [] = []"
  by (simp add: sub_dates.simps)






declare str_nat.simps [simp del]





section \<open>Evaluation on concrete texts\<close>

lemma sub_dates_Cons:
  "sub_dates prev (c # cs) =
     (case match_at prev (c # cs) of
        None \<Rightarrow> c # sub_dates (Some c) cs
      | Some (d, g, y, g0, rest) \<Rightarrow> repl g0 d g y @ sub_dates (Some (last g0)) rest)"
  by (subst sub_dates.simps) simp

lemmas text_eval =
  u_def is_space_def is_digit_def is_word_def py_strip_def sre_lower_def ci_eq_def
  py_lower_char_def py_lower_def MONTHS_MAP_def month_names_def ws1_def opt_ci_def trailer_def
  match_here_def wordc_def match_at_def repl_def zfill2_def normalize_polish_dates_def
  sub_dates_Nil sub_dates_Cons collapse_ws_def py_int_def digit_val_def py_str_int_def
  str_nat.simps

lemmas period_eval =
  eol_def q_tail_def PERIOD_Q_RE_def PERIOD_ISO_RE_def PERIOD_PL_RE_def YEAR_ONLY_RE_def
  is_period_token_def ddmmyyyy_here_def period_year_def Let_def

lemmas spec_eval =
  run4_at_def has_run4_def ddmmyyyy_at_def spec_extractYear_def

lemmas run_eval =
  py_isdigit_char_def py_isdigit_def ends_dot0_def clean_value_def clean_cell_def clean_row_def
  force_default_period_def mode_sorted_def years_in_range_def default_year_def
  fill_default_year_def year_filter_def process_file_def loop_step_def main_loop_def
  ogolem_def fill_empty_def fill_master_def sanity_check_def main_def

section \<open>Claims\<close>

text \<open>
  C4 (as stated): \<^verbatim>\<open>normalize_polish_dates\<close> applied to "31 marca 2025 r.," returns
  "31.03.2025,", the trailing comma left in place. The pattern ends in
  \<^verbatim>\<open>\s*r?\.?,?\<close>, so the comma belongs to the match and is replaced with it: the
  result is not the text the claim gives.
\<close>

theorem normalize_polish_dates_comma_counterexample:
  "normalize_polish_dates (u ''31 marca 2025 r.,'') \<noteq> u ''31.03.2025,''"
  by (simp add: text_eval)

text \<open>
  C4 (amended): \<^verbatim>\<open>normalize_polish_dates\<close> applied to "31 marca 2025 r.," returns
  "31.03.2025": the date is rewritten to DD.MM.YYYY and the tail " r.,", comma
  included, is consumed by the match.
\<close>

theorem normalize_polish_dates_example:
  "normalize_polish_dates (u ''31 marca 2025 r.,'') = u ''31.03.2025''"
  by (simp add: text_eval)

text \<open>
  C7 (as stated): the year extractor takes first a DD.MM.YYYY substring anywhere in
  the text. In "1999 x31.03.2025" the substring "31.03.2025" is there, so the
  specification's reading gives 2025; \<^verbatim>\<open>period_year\<close> asks for a word boundary in
  front of the day, finds none after the letter, and returns the four digits at the
  start of the text.
\<close>

theorem period_year_unbounded_counterexample:
  "spec_extractYear False (u ''1999 x31.03.2025'') = Some 2025 \<and>
   period_year (u ''1999 x31.03.2025'') = Some 1999"
  by (simp add: text_eval period_eval spec_eval)

text \<open>
  C7 (amended): on the trimmed text \<^verbatim>\<open>period_year\<close> takes, in this order, (a) the year
  group of the leftmost DD.MM.YYYY substring that begins and ends at a word boundary,
  (b) four digits at the very start, (c) the leftmost run of four digits; it returns
  null exactly when the text has no run of four digits. It returns 2025 for
  "2025-Q1", "31.03.2025" and "jakis 2025 tekst" (with the Polish s-acute), and null
  for "brak danych".
\<close>

theorem period_year_order:
  "period_year s = spec_extractYear True s \<and>
   (period_year s = None \<longleftrightarrow> \<not> has_run4 s) \<and>
   period_year (u ''2025-Q1'') = Some 2025 \<and>
   period_year (u ''31.03.2025'') = Some 2025 \<and>
   period_year (u ''jaki'' @ [347] @ u '' 2025 tekst'') = Some 2025 \<and>
   period_year (u ''brak danych'') = None"
proof -
  have "period_year (u ''2025-Q1'') = Some 2025"
    by (simp add: text_eval period_eval)
  moreover have "period_year (u ''31.03.2025'') = Some 2025"
    by (simp add: text_eval period_eval)
  moreover have "period_year (u ''jaki'' @ [347] @ u '' 2025 tekst'') = Some 2025"
    by (simp add: text_eval period_eval)
  moreover have "period_year (u ''brak danych'') = None"
    by (simp add: text_eval period_eval)
  ultimately show ?thesis
    using period_year_spec [of s] period_year_None_iff [of s] by blast
qed

theorem period_year_order_witness:
  "period_year (u ''nr 7, 2024 r.'') = spec_extractYear True (u ''nr 7, 2024 r.'') \<and>
   period_year (u ''nr 7, 2024 r.'') = Some 2024 \<and> has_run4 (u ''nr 7, 2024 r.'')"
proof -
  have "period_year (u ''nr 7, 2024 r.'') = Some 2024"
    by (simp add: text_eval period_eval)
  moreover have "has_run4 (u ''nr 7, 2024 r.'')"
    using period_year_order [of "u ''nr 7, 2024 r.''"] calculation by simp
  ultimately show ?thesis
    using period_year_order [of "u ''nr 7, 2024 r.''"] by simp
qed

text \<open>
  C8: every text that, once trimmed, has the form \<^verbatim>\<open>^\d{4}-Q[1-4]$\<close> or
  \<^verbatim>\<open>^\d{4}Q[1-4]$\<close>, in either letter case, is a period token.
\<close>

theorem is_period_token_quarter:
  "spec_quarter_form (py_strip s) \<Longrightarrow> is_period_token s"
  by (simp add: is_period_token_def Let_def spec_quarter_PERIOD_Q_RE)

theorem is_period_token_quarter_witness:
  "spec_quarter_form (py_strip (u '' 2025-q3 '')) \<and> is_period_token (u '' 2025-q3 '')"
proof -
  have h: "spec_quarter_form (py_strip (u '' 2025-q3 ''))"
    by (simp add: text_eval)
  from h is_period_token_quarter [OF h] show ?thesis by simp
qed

text \<open>
  C1: the year filter keeps a row exactly when the year extracted from its period is
  2024 or 2025, and every row of the written table has a non-empty period whose
  extracted year is 2024 or 2025: concatenation and the fill-in of step 10 keep this.
\<close>

theorem output_period_invariant:
  "(r \<in> set (year_filter long) \<longleftrightarrow>
      r \<in> set long \<and> (period_year (period r) = Some 2024 \<or> period_year (period r) = Some 2025)) \<and>
   (\<forall>master. written (main (process_file front) paths) = Some master \<longrightarrow>
      (\<forall>r' \<in> set master.
         period r' \<noteq> [] \<and>
         (period_year (period r') = Some 2024 \<or> period_year (period r') = Some 2025)))"
proof -
  have "period r' \<noteq> [] \<and>
        (period_year (period r') = Some 2024 \<or> period_year (period r') = Some 2025)"
    if w: "written (main (process_file front) paths) = Some master" and r': "r' \<in> set master"
    for master r'
  proof -
    from w have "master = map fill_master (concat (parts (main_loop (process_file front) (sort paths))))"
      by (auto simp: main_def Let_def split: if_splits)
    with r' obtain part r0 where
      p: "part \<in> set (successes (process_file front) (sort paths))" and
      r0: "r0 \<in> set part" and eq: "r' = fill_master r0"
      by (auto simp: parts_main_loop)
    from successes_process_file [OF p] r0 have
      "period_year (period r0) = Some 2024 \<or> period_year (period r0) = Some 2025"
      by (auto simp: year_filter_iff)
    then show ?thesis using fill_master_period [of r0] eq by auto
  qed
  then show ?thesis by (simp add: year_filter_iff)
qed

theorem output_period_invariant_witness:
  "written (main (process_file no_period_front) [u ''a.csv'']) =
     Some [\<lparr>dataset = u ''a'', measure = u ''liczba'', value' = u ''10'', region = u ''Polska'',
             period = u ''2025'', typ' = ogolem\<rparr>] \<and>
   period_year (u ''2025'') = Some 2025"
proof -
  let ?row0 = "\<lparr>dataset = u ''a'', measure = u ''liczba'', value' = u ''10'',
                region = u ''Polska'', period = [], typ' = []\<rparr>"
  let ?row1 = "\<lparr>dataset = u ''a'', measure = u ''liczba'', value' = u ''10'',
                region = u ''Polska'', period = u ''2025'', typ' = []\<rparr>"
  let ?row2 = "\<lparr>dataset = u ''a'', measure = u ''liczba'', value' = u ''10'',
                region = u ''Polska'', period = u ''2025'', typ' = ogolem\<rparr>"
  have 1: "map clean_row [\<lparr>l_dataset = u ''a'', l_measure = PStr (u ''liczba''),
             l_value = PStr (u ''10.0''), l_region = PStr (u ''Polska''),
             l_period = NA, l_typ = NA\<rparr>] = [?row0]"
    by (simp add: run_eval text_eval)
  have 2: "force_default_period False [?row0] = [?row1]"
    by (simp add: force_default_period_def)
  have 3: "fill_default_year [?row1] = [?row1]"
    by (simp add: fill_default_year_def u_def)
  have 4: "period_year (u ''2025'') = Some 2025"
    by (simp add: text_eval period_eval)
  have 5: "year_filter [?row1] = [?row1]"
    by (simp add: year_filter_def 4)
  have 6: "process_file no_period_front (u ''a.csv'') = Inr [?row1]"
    by (simp only: process_file_def no_period_front_def sum.case prod.case 1 2 3 5)
  have 7: "fill_master ?row1 = ?row2"
    by (simp add: fill_master_def fill_empty_def py_strip_def u_def is_space_def ogolem_def)
  have w: "written (main (process_file no_period_front) [u ''a.csv'']) = Some [?row2]"
    by (simp add: main_def main_loop_def loop_step_def Let_def 6 7)
  from output_period_invariant [where front = no_period_front and paths = "[u ''a.csv'']"] w
  have "period ?row2 \<noteq> [] \<and>
        (period_year (period ?row2) = Some 2024 \<or> period_year (period ?row2) = Some 2025)"
    by simp
  with w 4 show ?thesis by simp
qed

text \<open>
  C2 (as stated): the CSV file is written if and only if at least one file produced
  kept rows. A single file whose only row is of 2019 is processed without an
  exception and keeps no row; the file is written all the same, without rows.
\<close>

theorem main_written_counterexample:
  "process_file old_year_front (u ''a.csv'') = Inr [] \<and>
   written (main (process_file old_year_front) [u ''a.csv'']) = Some []"
proof -
  let ?row = "\<lparr>dataset = u ''a'', measure = u ''liczba'', value' = u ''10'',
               region = u ''Polska'', period = u ''2019'', typ' = []\<rparr>"
  have 1: "map clean_row [\<lparr>l_dataset = u ''a'', l_measure = PStr (u ''liczba''),
             l_value = PStr (u ''10''), l_region = PStr (u ''Polska''),
             l_period = PStr (u ''2019''), l_typ = NA\<rparr>] = [?row]"
    by (simp add: run_eval text_eval)
  have 2: "force_default_period True [?row] = [?row]"
    by (simp add: force_default_period_def)
  have 3: "fill_default_year [?row] = [?row]"
    by (simp add: fill_default_year_def u_def)
  have 4: "period_year (u ''2019'') = Some 2019"
    by (simp add: text_eval period_eval)
  have 5: "year_filter [?row] = []"
    by (simp add: year_filter_def 4)
  have 6: "process_file old_year_front (u ''a.csv'') = Inr []"
    by (simp only: process_file_def old_year_front_def sum.case prod.case 1 2 3 5)
  then have "written (main (process_file old_year_front) [u ''a.csv'']) = Some []"
    by (simp add: main_def main_loop_def loop_step_def Let_def)
  with 6 show ?thesis by (rule conjI)
qed

text \<open>
  C2 (amended): the CSV file is written if and only if at least one input file was
  processed without an exception, whether or not it kept rows; it then holds the
  filled-in rows of all such files. When no file was processed, no file is written
  and the line "Brak danych" closes the output.
\<close>

theorem main_written_iff:
  "(written (main pf paths) \<noteq> None \<longleftrightarrow> (\<exists>p \<in> set paths. \<exists>part. pf p = Inr part)) \<and>
   (written (main pf paths) = None \<longrightarrow>
      printed (main pf paths) = console (main_loop pf (sort paths)) @ [NoInput]) \<and>
   (\<forall>master. written (main pf paths) = Some master \<longrightarrow>
      master = map fill_master (concat (successes pf (sort paths))))"
  using successes_empty_iff [of pf "sort paths"]
  by (auto simp: main_def Let_def parts_main_loop)

theorem main_written_iff_witness:
  "one_bad_pf (u ''b.csv'') = Inl (Exception (u ''bad'')) \<and>
   written (main one_bad_pf [u ''b.csv'']) = None \<and>
   printed (main one_bad_pf [u ''b.csv'']) = console (main_loop one_bad_pf (sort [u ''b.csv''])) @ [NoInput]"
proof -
  have a: "one_bad_pf (u ''b.csv'') = Inl (Exception (u ''bad''))" by (simp add: one_bad_pf_def)
  with main_written_iff [of one_bad_pf "[u ''b.csv'']"] show ?thesis by auto
qed



text \<open>
  C9: a file whose processing raises an exception adds no table to the result and a
  line to the console; the loop goes on, so the result is that of the run without
  this file, and the tables collected are exactly those of the files processed
  without an exception.
\<close>

theorem main_loop_skips_failed:
  "parts (main_loop pf paths) = successes pf paths \<and>
   (pf p = Inl e \<longrightarrow>
      parts (main_loop pf (ps @ p # qs)) = parts (main_loop pf (ps @ qs)) \<and>
      Failed p e \<in> set (console (main_loop pf (ps @ p # qs))))"
proof -
  have a: "parts (main_loop pf paths) = successes pf paths"
    by (rule parts_main_loop)
  have b: "parts (main_loop pf (ps @ p # qs)) = parts (main_loop pf (ps @ qs))" if "pf p = Inl e"
    using that by (simp only: parts_main_loop successes_skip)
  have c: "Failed p e \<in> set (console (main_loop pf (ps @ p # qs)))" if "pf p = Inl e"
    unfolding main_loop_def using that by (rule console_failed)
  from a b c show ?thesis by blast
qed






theorem main_loop_skips_failed_witness:
  "one_bad_pf (u ''b.csv'') = Inl (Exception (u ''bad'')) \<and>
   parts (main_loop one_bad_pf ([u ''a.csv''] @ u ''b.csv'' # [u ''c.csv''])) =
     parts (main_loop one_bad_pf ([u ''a.csv''] @ [u ''c.csv''])) \<and>
   Failed (u ''b.csv'') (Exception (u ''bad'')) \<in>
     set (console (main_loop one_bad_pf ([u ''a.csv''] @ u ''b.csv'' # [u ''c.csv''])))"
proof -
  have a: "one_bad_pf (u ''b.csv'') = Inl (Exception (u ''bad''))" by (simp add: one_bad_pf_def)
  with main_loop_skips_failed [of one_bad_pf _ "u ''b.csv''" "Exception (u ''bad'')"
         "[u ''a.csv'']" "[u ''c.csv'']"]
  show ?thesis by blast
qed

text \<open>
  C6: the default year is the year, 2024 or 2025, that the most rows have as the
  extracted year of their period, 2024 when both have as many rows, and 2025 when
  no row has either; a row whose period is empty then gets the default year as
  text, and the periods of the other rows stay.
\<close>

theorem default_year_mode:
  "default_year long =
     (let n24 = length (filter (\<lambda>r. period_year (period r) = Some 2024) long);
          n25 = length (filter (\<lambda>r. period_year (period r) = Some 2025) long)
      in if n24 = 0 \<and> n25 = 0 then 2025 else if n24 < n25 then 2025 else 2024) \<and>
   map period (fill_default_year long) =
     map (\<lambda>r. if period r = [] then py_str_int (default_year long) else period r) long"
proof -
  define ys where "ys = years_in_range long"
  define d where "d = default_year long"
  have c24: "count_list ys 2024 = length (filter (\<lambda>r. period_year (period r) = Some 2024) long)"
    and c25: "count_list ys 2025 = length (filter (\<lambda>r. period_year (period r) = Some 2025) long)"
    unfolding ys_def by (simp_all add: years_in_range_count)
  have sub: "set ys \<subseteq> {2024, 2025}" unfolding ys_def by (rule years_in_range_set)
  have "d = (if count_list ys 2024 = 0 \<and> count_list ys 2025 = 0 then 2025
             else if count_list ys 2024 < count_list ys 2025 then 2025 else 2024)"
  proof (cases "ys = []")
    case True
    then show ?thesis by (simp add: d_def default_year_def ys_def [symmetric] mode_sorted_def)
  next
    case False
    from mode_sorted_hd [OF False] have
      dm: "d = hd (mode_sorted ys)" and din: "d \<in> set ys" and
      dmax: "\<And>y. y \<in> set ys \<Longrightarrow> count_list ys y \<le> count_list ys d" and
      dtie: "\<And>y. y \<in> set ys \<Longrightarrow> count_list ys y = count_list ys d \<Longrightarrow> d \<le> y"
      by (auto simp: d_def default_year_def ys_def [symmetric] Let_def)
    from din sub have d: "d = 2024 \<or> d = 2025" by auto
    have pos: "y \<in> set ys \<longleftrightarrow> 0 < count_list ys y" for y
      using count_list_0_iff [of ys y] by auto
    from d show ?thesis
    proof
      assume d24: "d = 2024"
      with din have "0 < count_list ys 2024" by (simp add: pos)
      moreover have "\<not> count_list ys 2024 < count_list ys 2025"
      proof
        assume lt: "count_list ys 2024 < count_list ys 2025"
        then have "2025 \<in> set ys" by (simp add: pos)
        from dmax [OF this] lt d24 show False by simp
      qed
      ultimately show ?thesis using d24 by simp
    next
      assume d25: "d = 2025"
      with din have p25: "0 < count_list ys 2025" by (simp add: pos)
      have "count_list ys 2024 < count_list ys 2025"
      proof (cases "2024 \<in> set ys")
        case True
        from dmax [OF True] d25 have le: "count_list ys 2024 \<le> count_list ys 2025" by simp
        have "count_list ys 2024 \<noteq> count_list ys 2025"
          using dtie [OF True] d25 by auto
        with le show ?thesis by simp
      next
        case False
        then have "count_list ys 2024 = 0" by (simp add: count_list_0_iff)
        with p25 show ?thesis by simp
      qed
      then show ?thesis using d25 by simp
    qed
  qed
  then show ?thesis
    unfolding d_def c24 c25 by (simp add: Let_def fill_default_year_def)
qed

theorem default_year_mode_witness:
  "default_year (rows_with_periods [u ''2025-Q1'', u ''31.12.2024'', [], u ''2024'']) = 2024 \<and>
   map period (fill_default_year (rows_with_periods [u ''2025-Q1'', u ''31.12.2024'', [], u ''2024'']))
     = [u ''2025-Q1'', u ''31.12.2024'', u ''2024'', u ''2024'']"
proof -
  have a: "default_year (rows_with_periods [u ''2025-Q1'', u ''31.12.2024'', [], u ''2024'']) = 2024"
    by (simp add: rows_with_periods_def run_eval text_eval period_eval)
  have b: "py_str_int 2024 = u ''2024''"
    by (simp add: text_eval)
  have c: "map period (rows_with_periods [u ''2025-Q1'', u ''31.12.2024'', [], u ''2024''])
           = [u ''2025-Q1'', u ''31.12.2024'', [], u ''2024'']"
    by (simp add: rows_with_periods_def)
  have d: "u ''2025-Q1'' \<noteq> [] \<and> u ''31.12.2024'' \<noteq> [] \<and> u ''2024'' \<noteq> []"
    by (simp add: u_def)
  from default_year_mode [of "rows_with_periods [u ''2025-Q1'', u ''31.12.2024'', [], u ''2024'']"]
  have "map period (fill_default_year (rows_with_periods [u ''2025-Q1'', u ''31.12.2024'', [], u ''2024'']))
        = map (\<lambda>p. if p = [] then u ''2024'' else p)
            (map period (rows_with_periods [u ''2025-Q1'', u ''31.12.2024'', [], u ''2024'']))"
    by (simp add: a b comp_def)
  with a c d show ?thesis by simp
qed



end
